theory Spec2Isabelle
  imports Main
begin

section \<open>The finite state machine of \<open>src/lib/fsm.ts\<close>\<close>

subsection \<open>Data\<close>

text \<open>
  A callback is a JavaScript function object. The machine compares callbacks with
  \<open>===\<close>, that is by reference, so a callback is modelled by its reference, a natural
  number. What a callback does when it is called is not part of the repository: it is the
  parameter \<open>run\<close> of \<open>move\<close> below.
\<close>

type_synonym callback = nat

text \<open>
  Values that can be thrown. The only \<open>throw\<close> statements of the source raise a
  \<open>RangeError\<close> with a message; a callback may throw anything.
\<close>

datatype thrown = RangeError string | OtherValue string

text \<open>
  How a method call ends: with \<open>return this\<close>, with a \<open>throw\<close> statement of the method
  itself, or with an exception of a callback that passes through the method.
\<close>

datatype exit = Returns | Throws thrown | Propagates thrown

text \<open>
  The class \<open>FSMTransition\<close>. Its fields are read-only, and the class never writes to
  the array of sources it is given, so the array is held as a value.
\<close>

record FSMTransition =
  name :: string
  sources :: "string list"
  dest :: string
  willcard :: bool

text \<open>
  The class \<open>FSMInstance\<close>. The map \<open>listeners\<close> holds references to array objects,
  and \<open>on\<close>, \<open>off\<close> and \<open>move\<close> work on these arrays in place, \<open>move\<close> while
  callbacks that may call \<open>on\<close> and \<open>off\<close> are running. The arrays therefore live in a
  store: \<open>listeners\<close> maps a state to the address of its array, \<open>arrays\<close> maps an
  address to the array's elements, and \<open>fresh\<close> is the next unused address.
\<close>

record FSMInstance =
  state :: string
  states :: "string set"
  transitions :: "string \<rightharpoonup> FSMTransition"
  paths :: "string \<rightharpoonup> string set"
  listeners :: "string \<rightharpoonup> nat"
  arrays :: "nat \<Rightarrow> callback list"
  fresh :: nat

text \<open>
  The effect of calling a callback with \<open>(instance, from, to)\<close>: the exception it
  throws, if any, and the instance as the callback leaves it.
\<close>

type_synonym effect =
  "callback \<Rightarrow> string \<Rightarrow> string \<Rightarrow> FSMInstance \<Rightarrow> thrown option \<times> FSMInstance"

text \<open>One recorded call of a callback: the callback and the arguments \<open>from\<close> and \<open>to\<close>.\<close>

type_synonym call = "callback \<times> string \<times> string"

text \<open>The second parameter of \<open>set\<close> has the type \<open>string[] | string\<close>.\<close>

datatype sources_arg = One string | Many "string list"

subsection \<open>Library functions of JavaScript used by the source\<close>

text \<open>\<open>Array.prototype.indexOf\<close>: the first index of an element, or \<open>-1\<close>.\<close>

fun indexOf :: "'a list \<Rightarrow> 'a \<Rightarrow> int" where
  "indexOf [] x = - 1"
| "indexOf (y # ys) x =
     (if y = x then 0 else (let r = indexOf ys x in if r = - 1 then - 1 else r + 1))"

text \<open>\<open>Array.prototype.splice(i, 1)\<close> on an array that has an index \<open>i\<close>.\<close>

definition splice1 :: "nat \<Rightarrow> 'a list \<Rightarrow> 'a list" where
  "splice1 i xs = take i xs @ drop (Suc i) xs"

text \<open>An array of strings in a template literal: its elements joined by commas.\<close>

fun join_comma :: "string list \<Rightarrow> string" where
  "join_comma [] = []"
| "join_comma [x] = x"
| "join_comma (x # y # ys) = x @ '','' @ join_comma (y # ys)"

definition quoted :: "string \<Rightarrow> string" where
  "quoted s = [CHR 0x27] @ s @ [CHR 0x27]"

subsection \<open>The constructors\<close>

definition new_FSMTransition :: "string \<Rightarrow> string list \<Rightarrow> string \<Rightarrow> FSMTransition" where
  "new_FSMTransition n srcs d =
     (if indexOf srcs ''*'' \<noteq> - 1
      then \<lparr>name = n, sources = [''*''], dest = d, willcard = True\<rparr>
      else \<lparr>name = n, sources = srcs, dest = d, willcard = False\<rparr>)"

definition construct :: "string \<Rightarrow> FSMInstance" where
  "construct init =
     \<lparr>state = init, states = {}, transitions = Map.empty, paths = Map.empty,
      listeners = Map.empty, arrays = (\<lambda>a. []), fresh = 0\<rparr>"

subsection \<open>\<open>on\<close> and \<open>off\<close>\<close>

text \<open>
  \<open>on\<close> takes the array of the state, or a new empty array, pushes the callback and
  stores the array under the state.
\<close>

definition on :: "string \<Rightarrow> callback \<Rightarrow> FSMInstance \<Rightarrow> FSMInstance" where
  "on s listener inst =
     (case listeners inst s of
        Some a \<Rightarrow>
          inst\<lparr>arrays := (arrays inst)(a := arrays inst a @ [listener]),
               listeners := (listeners inst)(s \<mapsto> a)\<rparr>
      | None \<Rightarrow>
          (let a = fresh inst in
           inst\<lparr>arrays := (arrays inst)(a := [] @ [listener]),
                listeners := (listeners inst)(s \<mapsto> a),
                fresh := Suc a\<rparr>))"

text \<open>The loop of \<open>off\<close>: the first element identical to the callback is spliced out.\<close>

function off_loop :: "nat \<Rightarrow> nat \<Rightarrow> callback \<Rightarrow> callback list \<Rightarrow> callback list" where
  "off_loop i l listener xs =
     (if i < l
      then (if xs ! i = listener then splice1 i xs else off_loop (Suc i) l listener xs)
      else xs)"
  by pat_completeness auto
termination
  by (relation "measure (\<lambda>(i, l, listener, xs). l - i)") auto

declare off_loop.simps [simp del]

text \<open>
  \<open>off\<close> with a callback works on the array of the state; for a state without an array
  the loop runs on a new empty array that is dropped afterwards. \<open>off\<close> without a
  callback deletes the state's entry of the map (the array object itself stays as it
  is).
\<close>

definition off :: "string \<Rightarrow> callback option \<Rightarrow> FSMInstance \<Rightarrow> FSMInstance" where
  "off s listener inst =
     (case listener of
        Some f \<Rightarrow>
          (case listeners inst s of
             Some a \<Rightarrow>
               inst\<lparr>arrays :=
                 (arrays inst)(a := off_loop 0 (length (arrays inst a)) f (arrays inst a))\<rparr>
           | None \<Rightarrow> inst)
      | None \<Rightarrow> inst\<lparr>listeners := (listeners inst)(s := None)\<rparr>)"

subsection \<open>\<open>can\<close> and \<open>move\<close>\<close>

definition can :: "string \<Rightarrow> FSMInstance \<Rightarrow> bool" where
  "can n inst =
     (case transitions inst n of
        None \<Rightarrow> False
      | Some transition \<Rightarrow>
          if \<not> willcard transition \<and> indexOf (sources transition) (state inst) = - 1
          then False
          else True)"

text \<open>
  \<open>Array.prototype.forEach\<close> on the array at address \<open>a\<close>, with the arrow function of
  \<open>move\<close> as its argument. The length \<open>len\<close> is read once, before the first call; at
  each index \<open>k\<close> below it, the element is read from the array as it is then, and an
  index that the array no longer has is skipped. An exception of a callback ends the
  loop.
\<close>

function forEach_listener ::
  "effect \<Rightarrow> string \<Rightarrow> string \<Rightarrow> nat \<Rightarrow> nat \<Rightarrow> nat \<Rightarrow> FSMInstance
     \<Rightarrow> call list \<times> exit \<times> FSMInstance" where
  "forEach_listener run from to a k len inst =
     (if k < len
      then (if k < length (arrays inst a)
            then (let listener = arrays inst a ! k in
                  case run listener from to inst of
                    (Some e, inst') \<Rightarrow> ([(listener, from, to)], Propagates e, inst')
                  | (None, inst') \<Rightarrow>
                      (case forEach_listener run from to a (Suc k) len inst' of
                         (calls, x, inst'') \<Rightarrow> ((listener, from, to) # calls, x, inst'')))
            else forEach_listener run from to a (Suc k) len inst)
      else ([], Returns, inst))"
  by pat_completeness auto
termination
  by (relation "measure (\<lambda>(run, from, to, a, k, len, inst). len - k)") auto

declare forEach_listener.simps [simp del]

definition not_found_message :: "string \<Rightarrow> string" where
  "not_found_message n = ''FSMInstance.move(): not found transition '' @ quoted n"

definition unexpected_state_message :: "string list \<Rightarrow> string \<Rightarrow> string" where
  "unexpected_state_message srcs s =
     ''FSMInstance.move(): current state expected is '' @ quoted (join_comma srcs)
       @ '', actual is '' @ quoted s"

text \<open>
  \<open>move\<close> returns the calls of callbacks it made, how it ended, and the instance
  afterwards.
\<close>

definition move :: "effect \<Rightarrow> string \<Rightarrow> FSMInstance \<Rightarrow> call list \<times> exit \<times> FSMInstance" where
  "move run n inst =
     (case transitions inst n of
        None \<Rightarrow> ([], Throws (RangeError (not_found_message n)), inst)
      | Some transition \<Rightarrow>
          if \<not> willcard transition \<and> indexOf (sources transition) (state inst) = - 1
          then ([], Throws (RangeError
                  (unexpected_state_message (sources transition) (state inst))), inst)
          else
            (let from = state inst;
                 inst1 = inst\<lparr>state := dest transition\<rparr>
             in case listeners inst1 (dest transition) of
                  None \<Rightarrow> ([], Returns, inst1)
                | Some a \<Rightarrow>
                    forEach_listener run from (dest transition) a 0
                      (length (arrays inst1 a)) inst1))"

subsection \<open>\<open>set\<close>\<close>

definition already_exists_message :: "string \<Rightarrow> string" where
  "already_exists_message n =
     ''FSMInstance.set(): transition '' @ quoted n @ '' already exists''"

text \<open>\<open>if (!Array.isArray(sources)) sources = [sources]\<close>.\<close>

fun as_array :: "sources_arg \<Rightarrow> string list" where
  "as_array (One s) = [s]"
| "as_array (Many ss) = ss"

text \<open>The body of the arrow function that \<open>set\<close> passes to \<open>forEach\<close>.\<close>

definition add_source :: "string \<Rightarrow> string \<Rightarrow> FSMInstance \<Rightarrow> FSMInstance" where
  "add_source d source inst =
     (let inst1 = inst\<lparr>states := insert source (states inst)\<rparr> in
      case paths inst1 source of
        None \<Rightarrow> inst1\<lparr>paths := (paths inst1)(source \<mapsto> insert d {})\<rparr>
      | Some path \<Rightarrow> inst1\<lparr>paths := (paths inst1)(source \<mapsto> insert d path)\<rparr>)"

definition set_transition ::
  "string \<Rightarrow> sources_arg \<Rightarrow> string \<Rightarrow> FSMInstance \<Rightarrow> exit \<times> FSMInstance" where
  "set_transition n srcs d inst =
     (if n \<in> dom (transitions inst)
      then (Throws (RangeError (already_exists_message n)), inst)
      else
        (let srcs' = as_array srcs;
             transition = new_FSMTransition n srcs' d;
             inst1 = inst\<lparr>transitions := (transitions inst)(n \<mapsto> transition)\<rparr>;
             inst2 = inst1\<lparr>states := insert d (states inst1)\<rparr>
         in (Returns, fold (add_source d) srcs' inst2)))"

subsection \<open>Observing the callback registry\<close>

text \<open>The callbacks registered for a state, in the order of the state's array.\<close>

definition callbacks :: "FSMInstance \<Rightarrow> string \<Rightarrow> callback list" where
  "callbacks inst s = (case listeners inst s of None \<Rightarrow> [] | Some a \<Rightarrow> arrays inst a)"



text \<open>
  The arrays in use have been allocated: every address in \<open>listeners\<close> is below
  \<open>fresh\<close>, so that the array which \<open>on\<close> creates for a state without one is a new
  object.
\<close>

definition allocated :: "FSMInstance \<Rightarrow> bool" where
  "allocated inst \<longleftrightarrow> (\<forall>s a. listeners inst s = Some a \<longrightarrow> a < fresh inst)"

subsection \<open>Example machines and callbacks\<close>

text \<open>Callbacks that only observe: they return and leave the instance alone.\<close>

definition observer :: effect where
  "observer l from to inst = (None, inst)"




text \<open>Callbacks that throw the string \<open>"boom"\<close>.\<close>

definition throwing_run :: effect where
  "throwing_run l from to inst = (Some (OtherValue ''boom''), inst)"

text \<open>\<open>new FSMInstance("A").set("go", "A", "B")\<close>.\<close>

definition go_fsm :: FSMInstance where
  "go_fsm = snd (set_transition ''go'' (One ''A'') ''B'' (construct ''A''))"

text \<open>The same machine after \<open>.on("B", f0).on("B", f1)\<close>.\<close>

definition two_listeners :: FSMInstance where
  "two_listeners = on ''B'' 1 (on ''B'' 0 go_fsm)"


text \<open>The machine after \<open>.on("B", f0).on("B", f1).on("B", f0)\<close>.\<close>

definition three_listeners :: FSMInstance where
  "three_listeners = on ''B'' 0 (on ''B'' 1 (on ''B'' 0 go_fsm))"

text \<open>\<open>new FSMInstance("Z").set("reset", ["A", "*"], "A").on("A", f0)\<close>.\<close>

definition wild_fsm :: FSMInstance where
  "wild_fsm =
     on ''A'' 0 (snd (set_transition ''reset'' (Many [''A'', ''*'']) ''A'' (construct ''Z'')))"

section \<open>Properties\<close>

subsection \<open>The library functions and the loops\<close>

lemma indexOf_ge: "- 1 \<le> indexOf xs x"
  by (induction xs) (auto simp: Let_def)

lemma indexOf_absent: "indexOf xs x = - 1 \<longleftrightarrow> x \<notin> set xs"
proof (induction xs)
  case Nil
  show ?case by simp
next
  case (Cons y ys)
  have "indexOf ys x + 1 \<noteq> - 1" using indexOf_ge [of ys x] by arith
  with Cons show ?case by (auto simp: Let_def)
qed

lemma off_loop_remove1:
  "i \<le> length xs \<Longrightarrow> f \<notin> set (take i xs) \<Longrightarrow> off_loop i (length xs) f xs = remove1 f xs"
proof (induction "length xs - i" arbitrary: i)
  case 0
  then have "i = length xs" by simp
  with 0 show ?case by (simp add: off_loop.simps remove1_idem)
next
  case (Suc n)
  then have lt: "i < length xs" by simp
  have split: "xs = take i xs @ xs ! i # drop (Suc i) xs"
    using lt by (simp add: id_take_nth_drop)
  show ?case
  proof (cases "xs ! i = f")
    case True
    have "remove1 f xs = remove1 f (take i xs @ xs ! i # drop (Suc i) xs)"
      using split by simp
    also have "\<dots> = take i xs @ drop (Suc i) xs"
      using Suc.prems(2) True by (simp add: remove1_append)
    finally show ?thesis using lt True by (simp add: off_loop.simps splice1_def)
  next
    case False
    have "f \<notin> set (take (Suc i) xs)"
      using Suc.prems(2) False lt by (auto simp: take_Suc_conv_app_nth)
    moreover have "n = length xs - Suc i" using Suc.hyps(2) by simp
    ultimately have "off_loop (Suc i) (length xs) f xs = remove1 f xs"
      using Suc.hyps(1) lt by simp
    then show ?thesis using lt False by (simp add: off_loop.simps)
  qed
qed

lemma off_loop_0: "off_loop 0 (length xs) f xs = remove1 f xs"
  by (rule off_loop_remove1) simp_all

lemma remove1_first:
  "f \<in> set xs \<Longrightarrow> \<exists>ys zs. xs = ys @ f # zs \<and> f \<notin> set ys \<and> remove1 f xs = ys @ zs"
proof -
  assume "f \<in> set xs"
  then obtain ys zs where s: "xs = ys @ f # zs" and n: "f \<notin> set ys"
    by (auto dest: split_list_first)
  from n have "remove1 f (ys @ f # zs) = ys @ zs" by (simp add: remove1_append)
  with s n show ?thesis by blast
qed


lemma forEach_exits:
  "forEach_listener run from to a k len inst = (calls, x, inst') \<Longrightarrow>
     (x = Returns \<or>
      (\<exists>e l i. x = Propagates e \<and> calls \<noteq> [] \<and> last calls = (l, from, to) \<and>
         run l from to i = (Some e, inst')))"
proof (induction "len - k" arbitrary: k inst calls x inst')
  case 0
  then show ?case by (simp add: forEach_listener.simps)
next
  case (Suc m)
  then have lt: "k < len" and m: "m = len - Suc k" by simp_all
  note ih = Suc.hyps(1) [OF m]
  show ?case
  proof (cases "k < length (arrays inst a)")
    case False
    with lt Suc.prems have "forEach_listener run from to a (Suc k) len inst = (calls, x, inst')"
      by (subst (asm) forEach_listener.simps) simp
    then show ?thesis by (rule ih)
  next
    case True
    let ?l = "arrays inst a ! k"
    obtain y i1 where r: "run ?l from to inst = (y, i1)" by (cases "run ?l from to inst")
    show ?thesis
    proof (cases y)
      case (Some e)
      with lt True r Suc.prems have "calls = [(?l, from, to)]" "x = Propagates e" "inst' = i1"
        by (subst (asm) forEach_listener.simps, simp)+
      with r Some show ?thesis by auto
    next
      case None
      obtain cs x2 i2 where rec: "forEach_listener run from to a (Suc k) len i1 = (cs, x2, i2)"
        by (cases "forEach_listener run from to a (Suc k) len i1") auto
      with lt True r None Suc.prems have eq: "calls = (?l, from, to) # cs" "x = x2" "inst' = i2"
        by (subst (asm) forEach_listener.simps, simp)+
      from ih [OF rec] eq show ?thesis by auto
    qed
  qed
qed

lemma forEach_no_calls:
  "forEach_listener run from to a k len inst = ([], x, inst') \<Longrightarrow> x = Returns \<and> inst' = inst"
proof (induction "len - k" arbitrary: k)
  case 0
  then show ?case by (simp add: forEach_listener.simps)
next
  case (Suc m)
  then have lt: "k < len" and m: "m = len - Suc k" by simp_all
  note ih = Suc.hyps(1) [OF m]
  show ?case
  proof (cases "k < length (arrays inst a)")
    case False
    with lt Suc.prems have "forEach_listener run from to a (Suc k) len inst = ([], x, inst')"
      by (subst (asm) forEach_listener.simps) simp
    then show ?thesis by (rule ih)
  next
    case True
    with lt Suc.prems show ?thesis
      by (subst (asm) forEach_listener.simps)
         (auto simp: Let_def split: prod.splits option.splits)
  qed
qed

subsection \<open>What the methods change\<close>

lemma add_source_frame:
  "state (add_source d s inst) = state inst"
  "transitions (add_source d s inst) = transitions inst"
  "listeners (add_source d s inst) = listeners inst"
  "arrays (add_source d s inst) = arrays inst"
  "fresh (add_source d s inst) = fresh inst"
  by (simp_all add: add_source_def Let_def split: option.splits)

lemma add_source_states: "states (add_source d s inst) = insert s (states inst)"
  by (simp add: add_source_def Let_def split: option.splits)

lemma add_source_paths:
  "paths (add_source d s inst) =
     (paths inst)(s \<mapsto> insert d (case paths inst s of None \<Rightarrow> {} | Some p \<Rightarrow> p))"
  by (simp add: add_source_def Let_def split: option.splits)

lemma fold_add_source_frame:
  "state (fold (add_source d) ss inst) = state inst \<and>
   transitions (fold (add_source d) ss inst) = transitions inst \<and>
   listeners (fold (add_source d) ss inst) = listeners inst \<and>
   arrays (fold (add_source d) ss inst) = arrays inst \<and>
   fresh (fold (add_source d) ss inst) = fresh inst"
  by (induction ss arbitrary: inst) (simp_all add: add_source_frame)

lemma fold_add_source_states:
  "states (fold (add_source d) ss inst) = states inst \<union> set ss"
  by (induction ss arbitrary: inst) (auto simp: add_source_states)

lemma fold_add_source_paths:
  "paths (fold (add_source d) ss inst) s =
     (if s \<in> set ss
      then Some (insert d (case paths inst s of None \<Rightarrow> {} | Some p \<Rightarrow> p))
      else paths inst s)"
  by (induction ss arbitrary: inst) (auto simp: add_source_paths)

lemma set_transition_fresh_name:
  assumes "n \<notin> dom (transitions inst)"
  shows "set_transition n srcs d inst =
     (Returns,
      fold (add_source d) (as_array srcs)
        (inst\<lparr>transitions := (transitions inst)(n \<mapsto> new_FSMTransition n (as_array srcs) d),
              states := insert d (states inst)\<rparr>))"
  using assms by (simp add: set_transition_def Let_def)

lemma set_transition_known_name:
  assumes "n \<in> dom (transitions inst)"
  shows "set_transition n srcs d inst = (Throws (RangeError (already_exists_message n)), inst)"
  using assms by (simp add: set_transition_def)

lemma new_FSMTransition_wildcard:
  "''*'' \<in> set ss \<Longrightarrow>
     new_FSMTransition n ss d = \<lparr>name = n, sources = [''*''], dest = d, willcard = True\<rparr>"
  by (simp add: new_FSMTransition_def indexOf_absent)

lemma on_frame:
  "state (on s f inst) = state inst"
  "transitions (on s f inst) = transitions inst"
  "states (on s f inst) = states inst"
  "paths (on s f inst) = paths inst"
  by (simp_all add: on_def Let_def split: option.splits)

lemma callbacks_on: "callbacks (on s f inst) s = callbacks inst s @ [f]"
  by (simp add: on_def callbacks_def Let_def split: option.splits)

lemma callbacks_off_all: "callbacks (off s None inst) s = []"
  by (simp add: off_def callbacks_def)

lemma callbacks_off_one: "callbacks (off s (Some f) inst) s = remove1 f (callbacks inst s)"
  by (simp add: off_def callbacks_def off_loop_0 split: option.splits)

lemma off_absent_callback: "f \<notin> set (callbacks inst s) \<Longrightarrow> off s (Some f) inst = inst"
  by (simp add: off_def callbacks_def off_loop_0 remove1_idem split: option.splits)

lemma off_absent_state: "listeners inst s = None \<Longrightarrow> off s l inst = inst"
  by (cases l) (simp_all add: off_def fun_upd_idem)

lemma allocated_construct: "allocated (construct init)"
  by (simp add: allocated_def construct_def)

lemma allocated_on: "allocated inst \<Longrightarrow> allocated (on s f inst)"
  by (auto simp: allocated_def on_def Let_def less_Suc_eq split: option.splits)

lemma allocated_off: "allocated inst \<Longrightarrow> allocated (off s l inst)"
  by (auto simp: allocated_def off_def split: option.splits if_splits)

lemma allocated_set_transition:
  "allocated inst \<Longrightarrow> allocated (snd (set_transition n srcs d inst))"
  by (cases "n \<in> dom (transitions inst)")
     (simp_all add: allocated_def set_transition_fresh_name set_transition_known_name
        fold_add_source_frame)

subsection \<open>\<open>can\<close> and \<open>move\<close> by cases\<close>

lemma can_iff:
  "can n inst \<longleftrightarrow>
     (\<exists>tr. transitions inst n = Some tr \<and> (willcard tr \<or> state inst \<in> set (sources tr)))"
  by (auto simp: can_def indexOf_absent split: option.splits)



lemma move_legal:
  "transitions inst n = Some tr \<Longrightarrow> willcard tr \<or> state inst \<in> set (sources tr) \<Longrightarrow>
     move run n inst =
       (case listeners inst (dest tr) of
          None \<Rightarrow> ([], Returns, inst\<lparr>state := dest tr\<rparr>)
        | Some a \<Rightarrow>
            forEach_listener run (state inst) (dest tr) a 0 (length (arrays inst a))
              (inst\<lparr>state := dest tr\<rparr>))"
  by (auto simp: move_def indexOf_absent Let_def split: option.splits)

lemma move_legal_exits:
  assumes tr: "transitions inst n = Some tr"
    and legal: "willcard tr \<or> state inst \<in> set (sources tr)"
    and m: "move run n inst = (calls, x, inst')"
  shows "(x = Returns \<or>
      (\<exists>e l i. x = Propagates e \<and> calls \<noteq> [] \<and> last calls = (l, state inst, dest tr) \<and>
         run l (state inst) (dest tr) i = (Some e, inst'))) \<and>
     (calls = [] \<longrightarrow> x = Returns \<and> inst' = inst\<lparr>state := dest tr\<rparr>)"
proof (cases "listeners inst (dest tr)")
  case None
  with m show ?thesis using move_legal [OF tr legal, of run] by auto
next
  case (Some a)
  with m have f: "forEach_listener run (state inst) (dest tr) a 0 (length (arrays inst a))
      (inst\<lparr>state := dest tr\<rparr>) = (calls, x, inst')"
    using move_legal [OF tr legal, of run] by simp
  from forEach_exits [OF f] forEach_no_calls [of run _ _ a 0 _ _ x inst'] f
  show ?thesis by auto
qed


subsection \<open>The example machines\<close>

lemma go_fsm_transition:
  "transitions go_fsm ''go'' =
     Some \<lparr>name = ''go'', sources = [''A''], dest = ''B'', willcard = False\<rparr>"
  by (simp add: go_fsm_def set_transition_def construct_def new_FSMTransition_def
      add_source_def)

lemma go_fsm_fields:
  "state go_fsm = ''A''" "listeners go_fsm = Map.empty" "fresh go_fsm = 0"
  by (simp_all add: go_fsm_def set_transition_def construct_def new_FSMTransition_def
      add_source_def)



section \<open>The claims\<close>

subsection \<open>What a legal \<open>move\<close> does\<close>




subsection \<open>When \<open>move\<close> fails\<close>




subsection \<open>\<open>can\<close>\<close>

text \<open>
  C3. \<open>can(name)\<close> is false when no transition called \<open>name\<close> is registered, true when
  the registered transition is a wildcard transition, and otherwise true exactly when the
  current state is in the source list of the transition. \<open>can\<close> only reads the
  instance and has no \<open>throw\<close>: in the model it is a function from the instance to a
  truth value.
\<close>
theorem can_checks_transition:
  "(transitions inst n = None \<longrightarrow> \<not> can n inst) \<and>
   (\<forall>tr. transitions inst n = Some tr \<and> willcard tr \<longrightarrow> can n inst) \<and>
   (\<forall>tr. transitions inst n = Some tr \<and> \<not> willcard tr \<longrightarrow>
      can n inst = (state inst \<in> set (sources tr)))"
  by (auto simp: can_iff)

theorem can_checks_transition_witness:
  "transitions (construct ''A'') ''go'' = None \<and> \<not> can ''go'' (construct ''A'') \<and>
   can ''go'' go_fsm \<and> \<not> can ''go'' (go_fsm\<lparr>state := ''B''\<rparr>) \<and>
   can ''reset'' (snd (set_transition ''reset'' (One ''*'') ''A'' go_fsm)\<lparr>state := ''B''\<rparr>)"
proof -
  let ?w = "snd (set_transition ''reset'' (One ''*'') ''A'' go_fsm)\<lparr>state := ''B''\<rparr>"
  have none: "transitions (construct ''A'') ''go'' = None" by (simp add: construct_def)
  have w: "transitions ?w ''reset'' =
      Some \<lparr>name = ''reset'', sources = [''*''], dest = ''A'', willcard = True\<rparr>"
    by (simp add: go_fsm_def set_transition_def construct_def new_FSMTransition_def
        add_source_def)
  have b: "transitions (go_fsm\<lparr>state := ''B''\<rparr>) ''go'' =
      Some \<lparr>name = ''go'', sources = [''A''], dest = ''B'', willcard = False\<rparr>"
    by (simp add: go_fsm_transition)
  show ?thesis
    using can_checks_transition [of "construct ''A''" "''go''"]
      can_checks_transition [of go_fsm "''go''"]
      can_checks_transition [of "go_fsm\<lparr>state := ''B''\<rparr>" "''go''"]
      can_checks_transition [of ?w "''reset''"]
      none w b go_fsm_transition go_fsm_fields
    by simp
qed

subsection \<open>Wildcard transitions\<close>

text \<open>
  C4, as amended. If \<open>set(name, sources, dest)\<close> is called with a new name and
  \<open>sources\<close> is the string \<open>"*"\<close> or an array with an entry \<open>"*"\<close>, alone or among
  others, the call returns, the stored transition has the source list \<open>["*"]\<close> and is
  marked wildcard, and whatever the current state is \<open>can(name)\<close> is true and
  \<open>move(name)\<close> succeeds unless a callback throws: it ends by returning the instance,
  or else with the exception thrown by the callback that it called last, and when it calls
  no callback it returns the instance with the current state \<open>dest\<close>.
\<close>
theorem wildcard_source_always_legal:
  assumes "n \<notin> dom (transitions inst)"
    and "case srcs of One s \<Rightarrow> s = ''*'' | Many ss \<Rightarrow> ''*'' \<in> set ss"
    and "set_transition n srcs d inst = (x, inst')"
  shows "x = Returns \<and>
     transitions inst' n = Some \<lparr>name = n, sources = [''*''], dest = d, willcard = True\<rparr> \<and>
     (\<forall>cur. can n (inst'\<lparr>state := cur\<rparr>)) \<and>
     (\<forall>cur run calls y i. move run n (inst'\<lparr>state := cur\<rparr>) = (calls, y, i) \<longrightarrow>
        (y = Returns \<or>
         (\<exists>e l j. y = Propagates e \<and> calls \<noteq> [] \<and> last calls = (l, cur, d) \<and>
            run l cur d j = (Some e, i))) \<and>
        (calls = [] \<longrightarrow> y = Returns \<and> i = inst'\<lparr>state := d\<rparr>))"
proof -
  let ?tr = "\<lparr>name = n, sources = [''*''], dest = d, willcard = True\<rparr>"
  from assms(2) have star: "''*'' \<in> set (as_array srcs)" by (cases srcs) simp_all
  from assms(1,3) have x: "x = Returns"
    and i: "inst' = fold (add_source d) (as_array srcs)
        (inst\<lparr>transitions := (transitions inst)(n \<mapsto> new_FSMTransition n (as_array srcs) d),
              states := insert d (states inst)\<rparr>)"
    by (simp_all add: set_transition_fresh_name)
  have tr: "transitions inst' n = Some ?tr"
    using star by (simp add: i fold_add_source_frame new_FSMTransition_wildcard)
  have tr': "transitions (inst'\<lparr>state := cur\<rparr>) n = Some ?tr" for cur
    using tr by simp
  have c: "can n (inst'\<lparr>state := cur\<rparr>)" for cur
    using tr' [of cur] by (simp add: can_iff)
  have m: "(y = Returns \<or>
         (\<exists>e l j. y = Propagates e \<and> calls \<noteq> [] \<and> last calls = (l, cur, d) \<and>
            run l cur d j = (Some e, i))) \<and>
        (calls = [] \<longrightarrow> y = Returns \<and> i = inst'\<lparr>state := d\<rparr>)"
    if "move run n (inst'\<lparr>state := cur\<rparr>) = (calls, y, i)" for cur run calls y i
  proof -
    have legal: "willcard ?tr \<or> state (inst'\<lparr>state := cur\<rparr>) \<in> set (sources ?tr)" by simp
    from move_legal_exits [OF tr' legal that] show ?thesis by simp
  qed
  from x tr c m show ?thesis by blast
qed

theorem wildcard_source_always_legal_witness:
  "transitions (snd (set_transition ''reset'' (One ''*'') ''A'' go_fsm)) ''reset'' =
     Some \<lparr>name = ''reset'', sources = [''*''], dest = ''A'', willcard = True\<rparr> \<and>
   can ''reset'' (snd (set_transition ''reset'' (One ''*'') ''A'' go_fsm)\<lparr>state := ''Z''\<rparr>) \<and>
   can ''reset'' (snd (set_transition ''reset'' (Many [''A'', ''*'']) ''A'' go_fsm)\<lparr>state := ''Z''\<rparr>) \<and>
   fst (snd (move observer ''reset''
     (snd (set_transition ''reset'' (Many [''A'', ''*'']) ''A'' go_fsm)\<lparr>state := ''Z''\<rparr>))) = Returns \<and>
   state (snd (snd (move observer ''reset''
     (snd (set_transition ''reset'' (Many [''A'', ''*'']) ''A'' go_fsm)\<lparr>state := ''Z''\<rparr>)))) = ''A''"
proof -
  let ?r1 = "set_transition ''reset'' (One ''*'') ''A'' go_fsm"
  let ?r = "set_transition ''reset'' (Many [''A'', ''*'']) ''A'' go_fsm"
  let ?m = "move observer ''reset'' (snd ?r\<lparr>state := ''Z''\<rparr>)"
  have fresh_name: "''reset'' \<notin> dom (transitions go_fsm)"
    by (simp add: go_fsm_def set_transition_def construct_def new_FSMTransition_def
        add_source_def)
  have star1: "case One ''*'' of One s \<Rightarrow> s = ''*'' | Many ss \<Rightarrow> ''*'' \<in> set ss" by simp
  have star: "case Many [''A'', ''*''] of One s \<Rightarrow> s = ''*'' | Many ss \<Rightarrow> ''*'' \<in> set ss"
    by simp
  have r1: "?r1 = (fst ?r1, snd ?r1)" by simp
  have r: "?r = (fst ?r, snd ?r)" by simp
  have m: "?m = (fst ?m, fst (snd ?m), snd (snd ?m))" by simp
  have l: "listeners (snd ?r) ''A'' = None"
    by (simp add: set_transition_fresh_name [OF fresh_name] add_source_frame go_fsm_fields)
  have t: "transitions (snd ?r) ''reset'' =
      Some \<lparr>name = ''reset'', sources = [''*''], dest = ''A'', willcard = True\<rparr>"
    using wildcard_source_always_legal [OF fresh_name star r] by simp
  have calls: "fst ?m = []"
    using l t by (simp add: move_def)
  note w1 = wildcard_source_always_legal [OF fresh_name star1 r1]
  note w = wildcard_source_always_legal [OF fresh_name star r]
  have c1: "can ''reset'' (snd ?r1\<lparr>state := ''Z''\<rparr>)"
    using w1 [THEN conjunct2, THEN conjunct2, THEN conjunct1] by (rule spec)
  have c: "can ''reset'' (snd ?r\<lparr>state := ''Z''\<rparr>)"
    using w [THEN conjunct2, THEN conjunct2, THEN conjunct1] by (rule spec)
  have "fst (snd ?m) = Returns \<and> snd (snd ?m) = snd ?r\<lparr>state := ''A''\<rparr>"
    using w [THEN conjunct2, THEN conjunct2, THEN conjunct2, rule_format, OF m,
        THEN conjunct2, rule_format, OF calls] .
  with w1 [THEN conjunct2, THEN conjunct1] c1 c show ?thesis by simp
qed

text \<open>
  The claim without the exception for callbacks fails. On the machine
  \<open>new FSMInstance("Z").set("reset", ["A", "*"], "A").on("A", f0)\<close>, where \<open>f0\<close>
  throws, \<open>can("reset")\<close> is true and \<open>move("reset")\<close> does not return: the exception
  of \<open>f0\<close> reaches the caller.
\<close>

theorem wildcard_move_ends_with_exception_of_listener:
  "transitions wild_fsm ''reset'' =
     Some \<lparr>name = ''reset'', sources = [''*''], dest = ''A'', willcard = True\<rparr> \<and>
   state wild_fsm = ''Z'' \<and>
   can ''reset'' wild_fsm \<and>
   callbacks wild_fsm ''A'' = [0] \<and>
   fst (move throwing_run ''reset'' wild_fsm) = [(0, ''Z'', ''A'')] \<and>
   fst (snd (move throwing_run ''reset'' wild_fsm)) = Propagates (OtherValue ''boom'')"
  by (simp add: wild_fsm_def move_def can_def set_transition_def construct_def on_def
      throwing_run_def callbacks_def new_FSMTransition_def add_source_def
      forEach_listener.simps)

subsection \<open>Registering a name twice\<close>

text \<open>
  C5. Once \<open>set(name, s1, d1)\<close> has succeeded, on any instance that still holds that
  registration a call \<open>set(name, s2, d2)\<close> raises a \<open>RangeError\<close> and leaves the whole
  instance as it was: the registered transition keeps the sources and the destination of
  the first call, and the known states, the adjacency map, the callbacks and the current
  state are unchanged.
\<close>
theorem set_transition_twice_fails:
  assumes "set_transition n s1 d1 inst0 = (Returns, inst1)"
    and "transitions inst n = transitions inst1 n"
  shows "set_transition n s2 d2 inst = (Throws (RangeError (already_exists_message n)), inst) \<and>
     transitions inst n = Some (new_FSMTransition n (as_array s1) d1)"
proof -
  have fresh_name: "n \<notin> dom (transitions inst0)"
    using assms(1) by (auto simp: set_transition_def split: if_splits)
  have "inst1 = fold (add_source d1) (as_array s1)
        (inst0\<lparr>transitions := (transitions inst0)(n \<mapsto> new_FSMTransition n (as_array s1) d1),
               states := insert d1 (states inst0)\<rparr>)"
    using assms(1) by (simp add: set_transition_fresh_name [OF fresh_name])
  then have "transitions inst1 n = Some (new_FSMTransition n (as_array s1) d1)"
    by (simp add: fold_add_source_frame)
  with assms(2) have reg: "transitions inst n = Some (new_FSMTransition n (as_array s1) d1)"
    by simp
  then have "n \<in> dom (transitions inst)" by auto
  with reg show ?thesis by (simp add: set_transition_known_name)
qed

theorem set_transition_twice_fails_witness:
  "set_transition ''go'' (One ''A'') ''B'' (construct ''A'') = (Returns, go_fsm) \<and>
   set_transition ''go'' (Many [''B'', ''C'']) ''D'' go_fsm =
     (Throws (RangeError (already_exists_message ''go'')), go_fsm) \<and>
   transitions go_fsm ''go'' =
     Some \<lparr>name = ''go'', sources = [''A''], dest = ''B'', willcard = False\<rparr>"
proof -
  have first: "set_transition ''go'' (One ''A'') ''B'' (construct ''A'') = (Returns, go_fsm)"
    by (simp add: go_fsm_def set_transition_def construct_def)
  show ?thesis
    using set_transition_twice_fails [OF first refl, of "Many [''B'', ''C'']" "''D''"] first
    by (simp add: new_FSMTransition_def)
qed

subsection \<open>The constructor\<close>

text \<open>
  C6. Right after \<open>construct(s)\<close> the current state is \<open>s\<close> and no transition is
  registered, so that for every name \<open>can\<close> is false and \<open>move\<close> raises its
  \<open>RangeError\<close>.
\<close>
theorem construct_initial:
  "state (construct s) = s \<and> transitions (construct s) = Map.empty \<and>
   \<not> can n (construct s) \<and>
   move run n (construct s) = ([], Throws (RangeError (not_found_message n)), construct s)"
  by (simp add: construct_def can_def move_def)

theorem construct_initial_witness:
  "state (construct ''idle'') = ''idle'' \<and> \<not> can ''start'' (construct ''idle'') \<and>
   fst (snd (move observer ''start'' (construct ''idle''))) =
     Throws (RangeError (not_found_message ''start''))"
  using construct_initial [of "''idle''" "''start''" observer] by simp

subsection \<open>\<open>off\<close>\<close>

text \<open>
  C7. \<open>off(s)\<close> without a callback removes every callback registered for \<open>s\<close>.
  \<open>off(s, fn)\<close> removes the first occurrence of \<open>fn\<close>, compared by reference, from the
  callback list of \<open>s\<close> and keeps the other callbacks in their order; when \<open>fn\<close> is not
  in the list, or \<open>s\<close> has no list, the call changes nothing. \<open>off\<close> has no \<open>throw\<close> and
  returns the instance: in the model it is a function from the instance to the instance.
\<close>
theorem off_removes_callbacks:
  "listeners (off s None inst) s = None \<and>
   callbacks (off s None inst) s = [] \<and>
   callbacks (off s (Some f) inst) s = remove1 f (callbacks inst s) \<and>
   (f \<in> set (callbacks inst s) \<longrightarrow>
      (\<exists>ys zs. callbacks inst s = ys @ f # zs \<and> f \<notin> set ys \<and>
         callbacks (off s (Some f) inst) s = ys @ zs)) \<and>
   (f \<notin> set (callbacks inst s) \<longrightarrow> off s (Some f) inst = inst) \<and>
   (listeners inst s = None \<longrightarrow> off s l inst = inst)"
proof (intro conjI impI)
  show "listeners (off s None inst) s = None" by (simp add: off_def)
  show "callbacks (off s None inst) s = []" by (rule callbacks_off_all)
  show "callbacks (off s (Some f) inst) s = remove1 f (callbacks inst s)"
    by (rule callbacks_off_one)
  show "\<exists>ys zs. callbacks inst s = ys @ f # zs \<and> f \<notin> set ys \<and>
         callbacks (off s (Some f) inst) s = ys @ zs" if "f \<in> set (callbacks inst s)"
    using remove1_first [OF that] by (simp add: callbacks_off_one)
  show "off s (Some f) inst = inst" if "f \<notin> set (callbacks inst s)"
    using that by (rule off_absent_callback)
  show "off s l inst = inst" if "listeners inst s = None"
    using that by (rule off_absent_state)
qed

theorem off_removes_callbacks_witness:
  "callbacks three_listeners ''B'' = [0, 1, 0] \<and>
   callbacks (off ''B'' (Some 0) three_listeners) ''B'' = [1, 0] \<and>
   callbacks (off ''B'' None three_listeners) ''B'' = [] \<and>
   off ''B'' (Some 2) three_listeners = three_listeners \<and>
   off ''C'' (Some 0) three_listeners = three_listeners \<and>
   off ''C'' None three_listeners = three_listeners"
proof -
  have cb: "callbacks three_listeners ''B'' = [0, 1, 0]"
    by (simp add: three_listeners_def callbacks_on) (simp add: callbacks_def go_fsm_fields)
  have c: "listeners three_listeners ''C'' = None"
    by (simp add: three_listeners_def on_def go_fsm_fields)
  show ?thesis
    using off_removes_callbacks [of "''B''" three_listeners 0 None]
      off_removes_callbacks [of "''B''" three_listeners 2 None]
      off_removes_callbacks [of "''C''" three_listeners 0 "Some 0"]
      off_removes_callbacks [of "''C''" three_listeners 0 None]
      cb c
    by simp
qed

subsection \<open>\<open>on\<close>\<close>




subsection \<open>\<open>set\<close> leaves the state and the callbacks alone\<close>

text \<open>
  C9. A call \<open>set(name, sources, dest)\<close> with a name that is not registered yet returns
  the instance and changes neither the current state nor the callbacks: the map of
  callback arrays and the arrays themselves are as before.
\<close>
theorem set_transition_frame:
  assumes "n \<notin> dom (transitions inst)"
    and "set_transition n srcs d inst = (x, inst')"
  shows "x = Returns \<and> state inst' = state inst \<and> listeners inst' = listeners inst \<and>
     arrays inst' = arrays inst \<and> fresh inst' = fresh inst \<and>
     (\<forall>s. callbacks inst' s = callbacks inst s)"
proof -
  from assms have x: "x = Returns"
    and i: "inst' = fold (add_source d) (as_array srcs)
        (inst\<lparr>transitions := (transitions inst)(n \<mapsto> new_FSMTransition n (as_array srcs) d),
              states := insert d (states inst)\<rparr>)"
    by (simp_all add: set_transition_fresh_name)
  have f: "state inst' = state inst" "listeners inst' = listeners inst"
    "arrays inst' = arrays inst" "fresh inst' = fresh inst"
    by (simp_all add: i fold_add_source_frame)
  then have "callbacks inst' s = callbacks inst s" for s
    by (simp add: callbacks_def split: option.splits)
  with x f show ?thesis by simp
qed

theorem set_transition_frame_witness:
  "fst (set_transition ''stop'' (Many [''B'', ''C'']) ''A'' two_listeners) = Returns \<and>
   state (snd (set_transition ''stop'' (Many [''B'', ''C'']) ''A'' two_listeners)) = ''A'' \<and>
   callbacks (snd (set_transition ''stop'' (Many [''B'', ''C'']) ''A'' two_listeners)) ''B'' = [0, 1]"
proof -
  let ?r = "set_transition ''stop'' (Many [''B'', ''C'']) ''A'' two_listeners"
  have fresh_name: "''stop'' \<notin> dom (transitions two_listeners)"
    by (simp add: two_listeners_def on_frame go_fsm_def set_transition_def construct_def
        new_FSMTransition_def add_source_def)
  have r: "?r = (fst ?r, snd ?r)" by simp
  have st: "state two_listeners = ''A''"
    by (simp add: two_listeners_def on_frame go_fsm_fields)
  have cb: "callbacks two_listeners ''B'' = [0, 1]"
    by (simp add: two_listeners_def callbacks_on) (simp add: callbacks_def go_fsm_fields)
  show ?thesis
    using set_transition_frame [OF fresh_name r] st cb by simp
qed

subsection \<open>\<open>set\<close> and the sources as given\<close>

text \<open>
  C10. When \<open>set(name, sources, dest)\<close> succeeds on a list of sources that contains
  \<open>"*"\<close>, among other entries or not, the stored transition has the source list
  \<open>["*"]\<close>, while the known states and the adjacency map are filled from the list as it
  was given: every entry of it, \<open>"*"\<close> included, is a known state afterwards and has
  \<open>dest\<close> among the states recorded as reachable from it; \<open>dest\<close> is a known state too,
  and the adjacency of every other state is unchanged.
\<close>
theorem set_transition_uses_given_sources:
  assumes "n \<notin> dom (transitions inst)"
    and "''*'' \<in> set ss"
    and "set_transition n (Many ss) d inst = (x, inst')"
  shows "transitions inst' n = Some \<lparr>name = n, sources = [''*''], dest = d, willcard = True\<rparr> \<and>
     states inst' = insert d (states inst) \<union> set ss \<and>
     (\<forall>s. paths inst' s =
        (if s \<in> set ss
         then Some (insert d (case paths inst s of None \<Rightarrow> {} | Some p \<Rightarrow> p))
         else paths inst s))"
proof -
  from assms(1,3) have
    i: "inst' = fold (add_source d) (as_array (Many ss))
        (inst\<lparr>transitions := (transitions inst)(n \<mapsto> new_FSMTransition n (as_array (Many ss)) d),
              states := insert d (states inst)\<rparr>)"
    by (simp add: set_transition_fresh_name)
  have tr: "transitions inst' n = Some \<lparr>name = n, sources = [''*''], dest = d, willcard = True\<rparr>"
    using assms(2) by (simp add: i fold_add_source_frame new_FSMTransition_wildcard)
  have st: "states inst' = insert d (states inst) \<union> set ss"
    by (simp add: i fold_add_source_states)
  have p: "paths inst' s =
        (if s \<in> set ss
         then Some (insert d (case paths inst s of None \<Rightarrow> {} | Some p \<Rightarrow> p))
         else paths inst s)" for s
    by (simp add: i fold_add_source_paths)
  from tr st p show ?thesis by blast
qed

theorem set_transition_uses_given_sources_witness:
  "sources (the (transitions
      (snd (set_transition ''reset'' (Many [''A'', ''*'', ''B'']) ''C'' (construct ''A''))) ''reset''))
     = [''*''] \<and>
   states (snd (set_transition ''reset'' (Many [''A'', ''*'', ''B'']) ''C'' (construct ''A'')))
     = {''A'', ''*'', ''B'', ''C''} \<and>
   paths (snd (set_transition ''reset'' (Many [''A'', ''*'', ''B'']) ''C'' (construct ''A''))) ''A''
     = Some {''C''} \<and>
   paths (snd (set_transition ''reset'' (Many [''A'', ''*'', ''B'']) ''C'' (construct ''A''))) ''*''
     = Some {''C''} \<and>
   paths (snd (set_transition ''reset'' (Many [''A'', ''*'', ''B'']) ''C'' (construct ''A''))) ''C''
     = None"
proof -
  let ?r = "set_transition ''reset'' (Many [''A'', ''*'', ''B'']) ''C'' (construct ''A'')"
  have fresh_name: "''reset'' \<notin> dom (transitions (construct ''A''))"
    by (simp add: construct_def)
  have star: "''*'' \<in> set [''A'', ''*'', ''B'']" by simp
  have r: "?r = (fst ?r, snd ?r)" by simp
  have e: "states (construct ''A'') = {}" "paths (construct ''A'') = Map.empty"
    by (simp_all add: construct_def)
  show ?thesis
    using set_transition_uses_given_sources [OF fresh_name star r] e by auto
qed

end
